theory Spec2Isabelle
  imports Main
begin

section \<open>The Minesweeper agent of \<^verbatim>\<open>minesweeper.py\<close>\<close>

text \<open>
  The embedding follows \<^verbatim>\<open>src/CS50 AI/Project 1/Minesweeper/minesweeper.py\<close>.

  \<^item> A cell is a pair of Python integers.
  \<^item> A Python \<^verbatim>\<open>set\<close> is a list without duplicates: the list is the set in the order a
    \<^verbatim>\<open>for\<close> loop visits it. Python leaves that order open, so the general properties below
    are stated on \<open>set xs\<close> and do not depend on it; loops over a set are recursion over the
    list.
  \<^item> An object with fields is a record; a method that mutates it returns the new record.
  \<^item> \<^verbatim>\<open>set.remove\<close> raises \<^verbatim>\<open>KeyError\<close> on a missing element. An operation that can raise
    returns a sum; the left injection carries the error and, for the agent, the state the
    object is left in when the exception leaves the method.
\<close>

subsection \<open>Python sets\<close>

type_synonym cell = "int \<times> int"

datatype error = KeyError

text \<open>\<^verbatim>\<open>s.add(x)\<close>\<close>

definition pyset_add :: "'a \<Rightarrow> 'a list \<Rightarrow> 'a list" where
  "pyset_add x xs = (if x \<in> set xs then xs else xs @ [x])"

text \<open>\<^verbatim>\<open>s.remove(x)\<close>: raises \<^verbatim>\<open>KeyError\<close> when \<open>x\<close> is not a member.\<close>

definition pyset_remove :: "'a \<Rightarrow> 'a list \<Rightarrow> error + 'a list" where
  "pyset_remove x xs = (if x \<in> set xs then Inr (removeAll x xs) else Inl KeyError)"

text \<open>\<^verbatim>\<open>s.difference(t)\<close>, and \<^verbatim>\<open>s.difference_update(t)\<close> as the new value of \<open>s\<close>\<close>

definition pyset_difference :: "'a list \<Rightarrow> 'a list \<Rightarrow> 'a list" where
  "pyset_difference xs ys = filter (\<lambda>x. x \<notin> set ys) xs"

text \<open>\<^verbatim>\<open>s.issubset(t)\<close>; \<^verbatim>\<open>s.issuperset(t)\<close> is \<open>pyset_issubset t s\<close>\<close>

definition pyset_issubset :: "'a list \<Rightarrow> 'a list \<Rightarrow> bool" where
  "pyset_issubset xs ys = (set xs \<subseteq> set ys)"

subsection \<open>class Sentence\<close>

record sentence =
  cells :: "cell list"
  count :: int

text \<open>\<^verbatim>\<open>Sentence(cells, count)\<close>: \<^verbatim>\<open>self.cells = set(cells)\<close>\<close>

definition Sentence :: "cell list \<Rightarrow> int \<Rightarrow> sentence" where
  "Sentence cs n = \<lparr>cells = remdups cs, count = n\<rparr>"

definition known_mines :: "sentence \<Rightarrow> cell list" where
  "known_mines s = (if int (length (cells s)) = count s then cells s else [])"

definition known_safes :: "sentence \<Rightarrow> cell list" where
  "known_safes s = (if count s = 0 then cells s else [])"

definition Sentence_mark_mine :: "cell \<Rightarrow> sentence \<Rightarrow> sentence" where
  "Sentence_mark_mine c s =
     (if c \<in> set (cells s)
      then s\<lparr>cells := removeAll c (cells s), count := count s - 1\<rparr>
      else s)"

definition Sentence_mark_safe :: "cell \<Rightarrow> sentence \<Rightarrow> sentence" where
  "Sentence_mark_safe c s =
     (if c \<in> set (cells s) then s\<lparr>cells := removeAll c (cells s)\<rparr> else s)"

subsection \<open>class MinesweeperAI\<close>

record ai =
  height :: int
  width :: int
  moves_made :: "cell list"
  mines :: "cell list"
  safes :: "cell list"
  accounted_mines :: "cell list"
  knowledge :: "sentence list"

text \<open>\<^verbatim>\<open>MinesweeperAI(height, width)\<close>\<close>

definition MinesweeperAI :: "int \<Rightarrow> int \<Rightarrow> ai" where
  "MinesweeperAI h w =
     \<lparr>height = h, width = w, moves_made = [], mines = [], safes = [],
      accounted_mines = [], knowledge = []\<rparr>"

definition mark_mine :: "cell \<Rightarrow> ai \<Rightarrow> ai" where
  "mark_mine c st =
     st\<lparr>mines := pyset_add c (mines st),
        knowledge := map (Sentence_mark_mine c) (knowledge st)\<rparr>"

text \<open>
  Both \<^verbatim>\<open>hasattr\<close> tests of \<^verbatim>\<open>mark_safe\<close> hold for every object the constructor has
  built, so their branch is always taken.
\<close>

definition mark_safe :: "cell \<Rightarrow> ai \<Rightarrow> ai" where
  "mark_safe c st =
     (let st1 = (if c \<in> set (moves_made st)
                 then st\<lparr>moves_made := removeAll c (moves_made st)\<rparr>
                 else st)
      in st1\<lparr>safes := pyset_add c (safes st1),
             knowledge := map (Sentence_mark_safe c) (knowledge st1)\<rparr>)"

text \<open>
  \<^verbatim>\<open>get_neighbors\<close>: the product of the two clipped ranges, from which the cell itself is
  removed with \<^verbatim>\<open>set.remove\<close>.
\<close>

definition get_neighbors :: "ai \<Rightarrow> cell \<Rightarrow> error + cell list" where
  "get_neighbors st c =
     (case c of (i, j) \<Rightarrow>
        pyset_remove c
          (List.product [max 0 (i - 1) .. min (height st) (i + 2) - 1]
                        [max 0 (j - 1) .. min (width st) (j + 2) - 1]))"

text \<open>
  Lines 204 to 206: the loop over \<^verbatim>\<open>self.mines\<close> that adjusts the count. The loop calls
  \<^verbatim>\<open>get_neighbors\<close> once for each mine it visits.
\<close>

fun adjust_count :: "ai \<Rightarrow> cell \<Rightarrow> cell list \<Rightarrow> int \<Rightarrow> error + int" where
  "adjust_count st c [] n = Inr n"
| "adjust_count st c (mine # rest) n =
     (case get_neighbors st c of
        Inl e \<Rightarrow> Inl e
      | Inr nb \<Rightarrow>
          adjust_count st c rest
            (if mine \<in> set nb \<and> mine \<notin> set (accounted_mines st) then n - 1 else n))"

text \<open>
  Lines 200 to 217 of \<^verbatim>\<open>add_knowledge\<close>: mark the cell safe, adjust the count, record the
  move, build the new sentence and append it.
\<close>

definition add_sentence :: "cell \<Rightarrow> int \<Rightarrow> ai \<Rightarrow> (error \<times> ai) + ai" where
  "add_sentence c n st =
     (let st1 = mark_safe c st in
      case adjust_count st1 c (mines st1) n of
        Inl e \<Rightarrow> Inl (e, st1)
      | Inr n' \<Rightarrow>
          (let st2 = st1\<lparr>moves_made := pyset_add c (moves_made st1)\<rparr> in
           case get_neighbors st2 c of
             Inl e \<Rightarrow> Inl (e, st2)
           | Inr nb \<Rightarrow>
               (let new_sentence_cells =
                      pyset_difference
                        (pyset_difference (pyset_difference nb (safes st2)) (moves_made st2))
                        (mines st2);
                    new_sentence = Sentence new_sentence_cells n'
                in Inr (st2\<lparr>knowledge := knowledge st2 @ [new_sentence]\<rparr>))))"

text \<open>
  One iteration of the loop of lines 220 to 238, at index \<open>i\<close> of \<^verbatim>\<open>self.knowledge\<close>.
  \<^verbatim>\<open>new_sentence\<close> is the object appended last, so it is read from the end of the list:
  the marks of earlier iterations have changed it too.
\<close>

definition infer_step :: "nat \<Rightarrow> ai \<Rightarrow> ai" where
  "infer_step i st =
     (let sentence = knowledge st ! i;
          new_sentence = last (knowledge st)
      in if pyset_issubset (cells new_sentence) (cells sentence) then
           (let difference_cells = pyset_difference (cells sentence) (cells new_sentence)
            in if count sentence - count new_sentence = 0 then
                 fold mark_safe difference_cells st
               else if count sentence - count new_sentence = int (length difference_cells) then
                 fold mark_mine difference_cells st
               else st)
         else if pyset_issubset (cells sentence) (cells new_sentence) then
           (let difference_cells = pyset_difference (cells new_sentence) (cells sentence)
            in if count new_sentence = 0 then
                 fold mark_safe difference_cells st
               else if count new_sentence - count sentence = int (length difference_cells) then
                 fold mark_mine difference_cells st
               else st)
         else st)"

lemma length_knowledge_mark_safe: "length (knowledge (mark_safe c st)) = length (knowledge st)"
  by (simp add: mark_safe_def Let_def)

lemma length_knowledge_mark_mine: "length (knowledge (mark_mine c st)) = length (knowledge st)"
  by (simp add: mark_mine_def)

lemma length_knowledge_fold_mark_safe:
  "length (knowledge (fold mark_safe cs st)) = length (knowledge st)"
  by (induction cs arbitrary: st) (simp_all add: length_knowledge_mark_safe)

lemma length_knowledge_fold_mark_mine:
  "length (knowledge (fold mark_mine cs st)) = length (knowledge st)"
  by (induction cs arbitrary: st) (simp_all add: length_knowledge_mark_mine)

lemma length_knowledge_infer_step:
  "length (knowledge (infer_step i st)) = length (knowledge st)"
  by (simp add: infer_step_def Let_def length_knowledge_fold_mark_safe
      length_knowledge_fold_mark_mine)

text \<open>
  The loop \<^verbatim>\<open>for sentence in self.knowledge\<close>, from index \<open>i\<close> on. The list keeps its
  length while the loop runs, which is why the loop ends.
\<close>

function infer_from :: "nat \<Rightarrow> ai \<Rightarrow> ai" where
  "infer_from i st =
     (if i < length (knowledge st) then infer_from (Suc i) (infer_step i st) else st)"
  by pat_completeness auto
termination
  by (relation "measure (\<lambda>(i, st). length (knowledge st) - i)")
    (auto simp: length_knowledge_infer_step)

declare infer_from.simps [simp del]

definition add_knowledge :: "cell \<Rightarrow> int \<Rightarrow> ai \<Rightarrow> (error \<times> ai) + ai" where
  "add_knowledge c n st =
     (case add_sentence c n st of
        Inl e \<Rightarrow> Inl e
      | Inr st3 \<Rightarrow> Inr (infer_from 0 st3))"

text \<open>
  \<^verbatim>\<open>make_safe_move\<close> reads the state and writes nothing; it returns the state next to the
  move so that this can be stated.
\<close>

definition make_safe_move :: "ai \<Rightarrow> cell option \<times> ai" where
  "make_safe_move st =
     (let safe_moves = filter (\<lambda>c. c \<notin> set (moves_made st)) (safes st)
      in case safe_moves of
           chosen_move # _ \<Rightarrow> (Some chosen_move, st)
         | [] \<Rightarrow> (None, st))"

text \<open>
  \<^verbatim>\<open>make_random_move\<close>: \<^verbatim>\<open>random.choice\<close> picks one element of a non-empty list; the
  number \<open>r\<close> stands for the draw.
\<close>

definition make_random_move :: "nat \<Rightarrow> ai \<Rightarrow> cell option" where
  "make_random_move r st =
     (let all_cells = List.product [0 .. height st - 1] [0 .. width st - 1];
          possible_moves =
            filter (\<lambda>c. c \<notin> set (moves_made st) \<and> c \<notin> set (mines st)) all_cells
      in if possible_moves \<noteq> [] then Some (possible_moves ! (r mod length possible_moves))
         else None)"

text \<open>
  \<^verbatim>\<open>play\<close>. A cell is a tuple of two elements, which Python takes as true, so
  \<^verbatim>\<open>if safe_move\<close> tests for \<^verbatim>\<open>None\<close> only.
\<close>

definition play :: "nat \<Rightarrow> ai \<Rightarrow> (error \<times> ai) + (cell option \<times> ai)" where
  "play r st =
     (case fst (make_safe_move st) of
        Some safe_move \<Rightarrow>
          (let st1 = st\<lparr>moves_made := pyset_add safe_move (moves_made st)\<rparr> in
           case pyset_remove safe_move (safes st1) of
             Inl e \<Rightarrow> Inl (e, st1)
           | Inr ss \<Rightarrow> Inr (Some safe_move, st1\<lparr>safes := ss\<rparr>))
      | None \<Rightarrow>
          (case make_random_move r st of
             Some random_move \<Rightarrow>
               Inr (Some random_move,
                    st\<lparr>moves_made := pyset_add random_move (moves_made st)\<rparr>)
           | None \<Rightarrow> Inr (None, st)))"

subsection \<open>Callers and state predicates\<close>

text \<open>
  A caller that makes one \<^verbatim>\<open>add_knowledge\<close> call after the other: the list of the states
  the agent goes through, the first one included. An exception ends the run, and the state
  it leaves is the last of the list.
\<close>

fun add_knowledge_trace :: "ai \<Rightarrow> (cell \<times> int) list \<Rightarrow> ai list" where
  "add_knowledge_trace st [] = [st]"
| "add_knowledge_trace st ((c, n) # calls) =
     st # (case add_knowledge c n st of
             Inr st' \<Rightarrow> add_knowledge_trace st' calls
           | Inl (e, st') \<Rightarrow> [st'])"

text \<open>No call of the run is made on a cell that is in \<^verbatim>\<open>mines\<close> at the time of the call.\<close>

fun no_mine_probed :: "ai \<Rightarrow> (cell \<times> int) list \<Rightarrow> bool" where
  "no_mine_probed st [] = True"
| "no_mine_probed st ((c, n) # calls) =
     (c \<notin> set (mines st) \<and>
      (case add_knowledge c n st of
         Inr st' \<Rightarrow> no_mine_probed st' calls
       | Inl _ \<Rightarrow> True))"

text \<open>The cell lies in \<open>[0, height) \<times> [0, width)\<close>.\<close>

definition in_bounds :: "ai \<Rightarrow> cell \<Rightarrow> bool" where
  "in_bounds st c = (case c of (i, j) \<Rightarrow> 0 \<le> i \<and> i < height st \<and> 0 \<le> j \<and> j < width st)"

text \<open>All cells that occur in some sentence of the knowledge list.\<close>

definition sentence_cells :: "ai \<Rightarrow> cell set" where
  "sentence_cells st = (\<Union>s \<in> set (knowledge st). set (cells s))"

text \<open>
  \<^verbatim>\<open>safes\<close>, \<^verbatim>\<open>mines\<close> and the cells of any sentence are pairwise disjoint.
\<close>

definition pairwise_disjoint :: "ai \<Rightarrow> bool" where
  "pairwise_disjoint st =
     (set (safes st) \<inter> set (mines st) = {} \<and>
      (\<forall>s \<in> set (knowledge st).
         set (cells s) \<inter> set (safes st) = {} \<and> set (cells s) \<inter> set (mines st) = {}))"

text \<open>\<open>|safes| + |mines|\<close>\<close>

definition known_total :: "ai \<Rightarrow> nat" where
  "known_total st = card (set (safes st)) + card (set (mines st))"

text \<open>
  Every list of the state is free of duplicates, as the Python set it stands for.
\<close>

definition duplicate_free :: "ai \<Rightarrow> bool" where
  "duplicate_free st =
     (distinct (moves_made st) \<and> distinct (mines st) \<and> distinct (safes st) \<and>
      distinct (accounted_mines st) \<and> (\<forall>s \<in> set (knowledge st). distinct (cells s)))"

text \<open>
  The states an agent can be in: the constructor builds the first one, and every method
  call leads from one to the next, whether it returns or raises.
\<close>

inductive reachable :: "ai \<Rightarrow> bool" where
  init: "reachable (MinesweeperAI h w)"
| mark_mine: "reachable st \<Longrightarrow> reachable (mark_mine c st)"
| mark_safe: "reachable st \<Longrightarrow> reachable (mark_safe c st)"
| add_knowledge_returns:
    "reachable st \<Longrightarrow> add_knowledge c n st = Inr st' \<Longrightarrow> reachable st'"
| add_knowledge_raises:
    "reachable st \<Longrightarrow> add_knowledge c n st = Inl (e, st') \<Longrightarrow> reachable st'"
| play_returns:
    "reachable st \<Longrightarrow> play r st = Inr (m, st') \<Longrightarrow> reachable st'"
| play_raises:
    "reachable st \<Longrightarrow> play r st = Inl (e, st') \<Longrightarrow> reachable st'"

section \<open>Properties\<close>

subsection \<open>Sets, sentences and the two mark operations\<close>

lemma set_pyset_add [simp]: "set (pyset_add x xs) = insert x (set xs)"
  by (auto simp: pyset_add_def)

lemma set_pyset_difference [simp]: "set (pyset_difference xs ys) = set xs - set ys"
  by (auto simp: pyset_difference_def)

lemma set_cells_Sentence_mark_safe [simp]:
  "set (cells (Sentence_mark_safe c s)) = set (cells s) - {c}"
  by (auto simp: Sentence_mark_safe_def)

lemma set_cells_Sentence_mark_mine [simp]:
  "set (cells (Sentence_mark_mine c s)) = set (cells s) - {c}"
  by (auto simp: Sentence_mark_mine_def)

lemma mark_safe_fields [simp]:
  "height (mark_safe c st) = height st"
  "width (mark_safe c st) = width st"
  "mines (mark_safe c st) = mines st"
  "accounted_mines (mark_safe c st) = accounted_mines st"
  "safes (mark_safe c st) = pyset_add c (safes st)"
  "knowledge (mark_safe c st) = map (Sentence_mark_safe c) (knowledge st)"
  "moves_made (mark_safe c st) = removeAll c (moves_made st)"
  by (simp_all add: mark_safe_def Let_def)

lemma mark_mine_fields [simp]:
  "height (mark_mine c st) = height st"
  "width (mark_mine c st) = width st"
  "mines (mark_mine c st) = pyset_add c (mines st)"
  "accounted_mines (mark_mine c st) = accounted_mines st"
  "safes (mark_mine c st) = safes st"
  "knowledge (mark_mine c st) = map (Sentence_mark_mine c) (knowledge st)"
  "moves_made (mark_mine c st) = moves_made st"
  by (simp_all add: mark_mine_def)

lemma sentence_cells_mark_safe [simp]:
  "sentence_cells (mark_safe c st) = sentence_cells st - {c}"
  by (auto simp: sentence_cells_def)

lemma sentence_cells_mark_mine [simp]:
  "sentence_cells (mark_mine c st) = sentence_cells st - {c}"
  by (auto simp: sentence_cells_def)

text \<open>
  A loop that marks every cell of a set: whatever the order in which the cells are
  visited, the sets after the loop are those before it with the cells added or taken away.
\<close>

lemma fold_mark_safe_fields [simp]:
  "height (fold mark_safe cs st) = height st"
  "width (fold mark_safe cs st) = width st"
  "mines (fold mark_safe cs st) = mines st"
  "accounted_mines (fold mark_safe cs st) = accounted_mines st"
  "set (safes (fold mark_safe cs st)) = set (safes st) \<union> set cs"
  "set (moves_made (fold mark_safe cs st)) = set (moves_made st) - set cs"
  "sentence_cells (fold mark_safe cs st) = sentence_cells st - set cs"
  by (induction cs arbitrary: st; auto)+

lemma fold_mark_mine_fields [simp]:
  "height (fold mark_mine cs st) = height st"
  "width (fold mark_mine cs st) = width st"
  "set (mines (fold mark_mine cs st)) = set (mines st) \<union> set cs"
  "accounted_mines (fold mark_mine cs st) = accounted_mines st"
  "safes (fold mark_mine cs st) = safes st"
  "moves_made (fold mark_mine cs st) = moves_made st"
  "sentence_cells (fold mark_mine cs st) = sentence_cells st - set cs"
  by (induction cs arbitrary: st; auto)+

lemma pairwise_disjoint_iff:
  "pairwise_disjoint st \<longleftrightarrow>
     set (safes st) \<inter> set (mines st) = {} \<and>
     sentence_cells st \<inter> (set (safes st) \<union> set (mines st)) = {}"
  by (auto simp: pairwise_disjoint_def sentence_cells_def)

lemma nth_cells_subset: "i < length (knowledge st) \<Longrightarrow> set (cells (knowledge st ! i)) \<subseteq> sentence_cells st"
  unfolding sentence_cells_def using nth_mem by blast

lemma last_cells_subset: "knowledge st \<noteq> [] \<Longrightarrow> set (cells (last (knowledge st))) \<subseteq> sentence_cells st"
  unfolding sentence_cells_def using last_in_set by blast

lemma pairwise_disjoint_fold_mark_safe:
  "pairwise_disjoint st \<Longrightarrow> set cs \<inter> set (mines st) = {} \<Longrightarrow> pairwise_disjoint (fold mark_safe cs st)"
  by (auto simp: pairwise_disjoint_iff)

lemma pairwise_disjoint_fold_mark_mine:
  "pairwise_disjoint st \<Longrightarrow> set cs \<inter> set (safes st) = {} \<Longrightarrow> pairwise_disjoint (fold mark_mine cs st)"
  by (auto simp: pairwise_disjoint_iff)

lemma pairwise_disjoint_infer_step:
  assumes "pairwise_disjoint st" "i < length (knowledge st)"
  shows "pairwise_disjoint (infer_step i st)"
proof -
  from assms(2) have ne: "knowledge st \<noteq> []" by auto
  have a: "set (cells (knowledge st ! i)) \<inter> (set (safes st) \<union> set (mines st)) = {}"
    using nth_cells_subset[OF assms(2)] assms(1) by (auto simp: pairwise_disjoint_iff)
  have b: "set (cells (last (knowledge st))) \<inter> (set (safes st) \<union> set (mines st)) = {}"
    using last_cells_subset[OF ne] assms(1) by (auto simp: pairwise_disjoint_iff)
  show ?thesis
    unfolding infer_step_def Let_def
    using a b assms(1)
    by (auto intro!: pairwise_disjoint_fold_mark_safe pairwise_disjoint_fold_mark_mine)
qed

lemma pairwise_disjoint_infer_from:
  "pairwise_disjoint st \<Longrightarrow> pairwise_disjoint (infer_from i st)"
proof (induction i st rule: infer_from.induct)
  case (1 i st)
  show ?case
  proof (cases "i < length (knowledge st)")
    case True
    then show ?thesis
      using 1 by (simp add: infer_from.simps[of i st] pairwise_disjoint_infer_step)
  next
    case False
    then show ?thesis using 1 by (simp add: infer_from.simps[of i st])
  qed
qed

lemma get_neighbors_in_bounds:
  "in_bounds st c \<Longrightarrow> \<exists>nb. get_neighbors st c = Inr nb"
  by (cases c) (auto simp: get_neighbors_def in_bounds_def pyset_remove_def)

lemma get_neighbors_out_of_bounds:
  "\<not> in_bounds st c \<Longrightarrow> get_neighbors st c = Inl KeyError"
  by (cases c) (auto simp: get_neighbors_def in_bounds_def pyset_remove_def)

text \<open>
  \<^verbatim>\<open>get_neighbors\<close> raises exactly on the cells outside the board; on the others it
  returns the cells of the board at distance one.
\<close>

lemma get_neighbors_set:
  "get_neighbors st c = Inr nb \<Longrightarrow>
   set nb = {m. m \<noteq> c \<and> in_bounds st m \<and> \<bar>fst m - fst c\<bar> \<le> 1 \<and> \<bar>snd m - snd c\<bar> \<le> 1}"
  by (cases c) (auto simp: get_neighbors_def in_bounds_def pyset_remove_def split: if_splits)

lemma adjust_count_closed:
  "get_neighbors st c = Inr nb \<Longrightarrow> accounted_mines st = [] \<Longrightarrow> distinct ms \<Longrightarrow>
   adjust_count st c ms n = Inr (n - int (card (set ms \<inter> set nb)))"
proof (induction ms arbitrary: n)
  case Nil
  then show ?case by simp
next
  case (Cons m ms)
  have fin: "finite (set ms \<inter> set nb)" by simp
  show ?case
  proof (cases "m \<in> set nb")
    case True
    then have "set (m # ms) \<inter> set nb = insert m (set ms \<inter> set nb)" by auto
    moreover have "m \<notin> set ms \<inter> set nb" using Cons.prems(3) by simp
    ultimately have "card (set (m # ms) \<inter> set nb) = Suc (card (set ms \<inter> set nb))"
      using fin by simp
    then show ?thesis using Cons True by simp
  next
    case False
    then have "set (m # ms) \<inter> set nb = set ms \<inter> set nb" by auto
    then show ?thesis using Cons False by simp
  qed
qed

lemma adjust_count_total:
  "get_neighbors st c = Inr nb \<Longrightarrow> \<exists>n'. adjust_count st c ms n = Inr n'"
  by (induction ms arbitrary: n) auto

subsection \<open>The first half of \<^verbatim>\<open>add_knowledge\<close>\<close>

lemma set_cells_Sentence [simp]: "set (cells (Sentence cs n)) = set cs"
  by (simp add: Sentence_def)

lemma count_Sentence [simp]: "count (Sentence cs n) = n"
  by (simp add: Sentence_def)

lemma get_neighbors_mark_safe [simp]: "get_neighbors (mark_safe c' st) c = get_neighbors st c"
  by (simp add: get_neighbors_def)

lemma get_neighbors_moves_made_update [simp]:
  "get_neighbors (st\<lparr>moves_made := ms\<rparr>) c = get_neighbors st c"
  by (simp add: get_neighbors_def)

text \<open>What \<open>add_sentence\<close> returns, field by field.\<close>

lemma add_sentence_returns:
  assumes "add_sentence c n st = Inr st3"
  shows "height st3 = height st" "width st3 = width st" "mines st3 = mines st"
    "accounted_mines st3 = accounted_mines st"
    "set (safes st3) = insert c (set (safes st))"
    "set (moves_made st3) = insert c (set (moves_made st))"
    "\<exists>nb n'. get_neighbors st c = Inr nb \<and>
        adjust_count (mark_safe c st) c (mines st) n = Inr n' \<and>
        knowledge st3 = map (Sentence_mark_safe c) (knowledge st) @
          [Sentence (pyset_difference (pyset_difference (pyset_difference nb (safes st3))
             (moves_made st3)) (mines st)) n']"
proof -
  let ?st1 = "mark_safe c st"
  let ?st2 = "?st1\<lparr>moves_made := pyset_add c (moves_made ?st1)\<rparr>"
  have g2: "get_neighbors ?st2 c = get_neighbors st c"
    by simp
  obtain n' where n': "adjust_count ?st1 c (mines ?st1) n = Inr n'"
    using assms by (cases "adjust_count ?st1 c (mines ?st1) n") (simp_all add: add_sentence_def Let_def)
  obtain nb where nb: "get_neighbors st c = Inr nb"
    using assms n' g2 by (cases "get_neighbors st c") (simp_all add: add_sentence_def Let_def)
  have st3: "st3 = ?st2\<lparr>knowledge := knowledge ?st2 @
      [Sentence (pyset_difference (pyset_difference (pyset_difference nb (safes ?st2))
         (moves_made ?st2)) (mines ?st2)) n']\<rparr>"
    using assms n' nb g2 by (simp add: add_sentence_def Let_def)
  show "height st3 = height st" by (simp add: st3)
  show "width st3 = width st" by (simp add: st3)
  show "mines st3 = mines st" by (simp add: st3)
  show "accounted_mines st3 = accounted_mines st" by (simp add: st3)
  show "set (safes st3) = insert c (set (safes st))" by (simp add: st3)
  show "set (moves_made st3) = insert c (set (moves_made st))" by (auto simp: st3)
  have "knowledge st3 = map (Sentence_mark_safe c) (knowledge st) @
          [Sentence (pyset_difference (pyset_difference (pyset_difference nb (safes st3))
             (moves_made st3)) (mines st)) n']"
    by (simp add: st3)
  then show "\<exists>nb n'. get_neighbors st c = Inr nb \<and>
        adjust_count (mark_safe c st) c (mines st) n = Inr n' \<and>
        knowledge st3 = map (Sentence_mark_safe c) (knowledge st) @
          [Sentence (pyset_difference (pyset_difference (pyset_difference nb (safes st3))
             (moves_made st3)) (mines st)) n']"
    using nb n' by auto
qed

lemma add_sentence_raises:
  assumes "add_sentence c n st = Inl (e, st')"
  shows "e = KeyError" "\<not> in_bounds st c" "height st' = height st" "width st' = width st" "mines st' = mines st"
    "accounted_mines st' = accounted_mines st"
    "set (safes st') = insert c (set (safes st))"
    "knowledge st' = map (Sentence_mark_safe c) (knowledge st)"
    "set (moves_made st') = set (moves_made st) - {c} \<or> set (moves_made st') = insert c (set (moves_made st))"
proof -
  let ?st1 = "mark_safe c st"
  let ?st2 = "?st1\<lparr>moves_made := pyset_add c (moves_made ?st1)\<rparr>"
  have g1: "get_neighbors ?st1 c = get_neighbors st c"
    by simp
  have g2: "get_neighbors ?st2 c = get_neighbors st c"
    by simp
  have nb: "\<not> in_bounds st c"
  proof
    assume "in_bounds st c"
    then obtain nb where nb: "get_neighbors st c = Inr nb"
      using get_neighbors_in_bounds by blast
    then obtain n' where "adjust_count ?st1 c (mines ?st1) n = Inr n'"
      using adjust_count_total[of ?st1 c nb] g1 by metis
    then show False
      using assms nb g2 by (simp add: add_sentence_def Let_def)
  qed
  then have err: "get_neighbors st c = Inl KeyError"
    by (rule get_neighbors_out_of_bounds)
  have cases: "(e, st') = (KeyError, ?st1) \<or> (e, st') = (KeyError, ?st2)"
  proof (cases "mines st")
    case Nil
    then show ?thesis
      using assms err g2 by (simp add: add_sentence_def Let_def)
  next
    case (Cons m ms)
    then have "adjust_count ?st1 c (mines ?st1) n = Inl KeyError"
      using err g1 by simp
    then show ?thesis
      using assms by (simp add: add_sentence_def Let_def)
  qed
  show "e = KeyError" using cases by auto
  show "\<not> in_bounds st c" by (rule nb)
  show "height st' = height st" using cases by auto
  show "width st' = width st" using cases by auto
  show "mines st' = mines st" using cases by auto
  show "accounted_mines st' = accounted_mines st" using cases by auto
  show "set (safes st') = insert c (set (safes st))" using cases by auto
  show "knowledge st' = map (Sentence_mark_safe c) (knowledge st)" using cases by auto
  show "set (moves_made st') = set (moves_made st) - {c} \<or>
        set (moves_made st') = insert c (set (moves_made st))"
    using cases by auto
qed

lemma add_sentence_in_bounds:
  assumes "in_bounds st c"
  shows "\<exists>st3. add_sentence c n st = Inr st3"
proof (cases "add_sentence c n st")
  case (Inl a)
  then show ?thesis using add_sentence_raises(2)[of c n st "fst a" "snd a"] assms by simp
next
  case (Inr b)
  then show ?thesis by simp
qed

lemma add_sentence_out_of_bounds:
  assumes "\<not> in_bounds st c"
  shows "\<exists>st'. add_sentence c n st = Inl (KeyError, st')"
proof (cases "add_sentence c n st")
  case (Inl a)
  then show ?thesis using add_sentence_raises(1)[of c n st "fst a" "snd a"] by (cases a) simp
next
  case (Inr b)
  then obtain nb where "get_neighbors st c = Inr nb"
    using add_sentence_returns(7) by blast
  then show ?thesis using get_neighbors_out_of_bounds[OF assms] by simp
qed

lemma pairwise_disjoint_add_sentence_returns:
  assumes "pairwise_disjoint st" "c \<notin> set (mines st)" "add_sentence c n st = Inr st3"
  shows "pairwise_disjoint st3"
proof -
  from add_sentence_returns(7)[OF assms(3)] obtain nb n' where
    k0: "knowledge st3 = map (Sentence_mark_safe c) (knowledge st) @
          [Sentence (pyset_difference (pyset_difference (pyset_difference nb (safes st3))
             (moves_made st3)) (mines st)) n']"
    by blast
  define new where "new = Sentence (pyset_difference (pyset_difference
    (pyset_difference nb (safes st3)) (moves_made st3)) (mines st)) n'"
  have k: "knowledge st3 = map (Sentence_mark_safe c) (knowledge st) @ [new]"
    using k0 by (simp add: new_def)
  have new: "set (cells new) \<inter> (set (safes st3) \<union> set (mines st)) = {}"
    by (auto simp: new_def)
  have "sentence_cells st3 = (sentence_cells st - {c}) \<union> set (cells new)"
    using k by (auto simp: sentence_cells_def)
  then show ?thesis
    using assms(1,2) new add_sentence_returns(3,5)[OF assms(3)]
    by (auto simp: pairwise_disjoint_iff)
qed

lemma pairwise_disjoint_add_sentence_raises:
  assumes "pairwise_disjoint st" "c \<notin> set (mines st)" "add_sentence c n st = Inl (e, st')"
  shows "pairwise_disjoint st'"
proof -
  have "sentence_cells st' = sentence_cells st - {c}"
    using add_sentence_raises(8)[OF assms(3)] by (auto simp: sentence_cells_def)
  then show ?thesis
    using assms(1,2) add_sentence_raises(5,7)[OF assms(3)]
    by (auto simp: pairwise_disjoint_iff)
qed

lemma add_knowledge_Inr:
  "add_knowledge c n st = Inr st' \<longleftrightarrow>
     (\<exists>st3. add_sentence c n st = Inr st3 \<and> st' = infer_from 0 st3)"
  by (cases "add_sentence c n st") (auto simp: add_knowledge_def)

lemma add_knowledge_Inl:
  "add_knowledge c n st = Inl e \<longleftrightarrow> add_sentence c n st = Inl e"
  by (cases "add_sentence c n st") (auto simp: add_knowledge_def)

lemma pairwise_disjoint_add_knowledge_returns:
  assumes "pairwise_disjoint st" "c \<notin> set (mines st)" "add_knowledge c n st = Inr st'"
  shows "pairwise_disjoint st'"
proof -
  from assms(3) obtain st3 where
    st3: "add_sentence c n st = Inr st3" "st' = infer_from 0 st3"
    unfolding add_knowledge_Inr by blast
  have "pairwise_disjoint st3"
    using assms(1,2) st3(1) by (rule pairwise_disjoint_add_sentence_returns)
  then show ?thesis
    unfolding st3(2) by (rule pairwise_disjoint_infer_from)
qed

lemma pairwise_disjoint_add_knowledge_raises:
  assumes "pairwise_disjoint st" "c \<notin> set (mines st)" "add_knowledge c n st = Inl (e, st')"
  shows "pairwise_disjoint st'"
  using assms unfolding add_knowledge_Inl
  by (rule pairwise_disjoint_add_sentence_raises)

subsection \<open>What no operation changes, and what only grows\<close>

lemma distinct_pyset_add [simp]: "distinct (pyset_add x xs) = distinct xs"
  by (simp add: pyset_add_def)

lemma distinct_mines_fold_mark_mine:
  "distinct (mines st) \<Longrightarrow> distinct (mines (fold mark_mine cs st))"
  by (induction cs arbitrary: st) simp_all

lemma infer_step_frame:
  "height (infer_step i st) = height st"
  "width (infer_step i st) = width st"
  "accounted_mines (infer_step i st) = accounted_mines st"
  "set (safes st) \<subseteq> set (safes (infer_step i st))"
  "set (mines st) \<subseteq> set (mines (infer_step i st))"
  "distinct (mines st) \<Longrightarrow> distinct (mines (infer_step i st))"
  by (simp_all add: infer_step_def Let_def distinct_mines_fold_mark_mine)

lemma infer_from_frame:
  "height (infer_from i st) = height st \<and>
   width (infer_from i st) = width st \<and>
   accounted_mines (infer_from i st) = accounted_mines st \<and>
   set (safes st) \<subseteq> set (safes (infer_from i st)) \<and>
   set (mines st) \<subseteq> set (mines (infer_from i st)) \<and>
   (distinct (mines st) \<longrightarrow> distinct (mines (infer_from i st)))"
proof (induction i st rule: infer_from.induct)
  case (1 i st)
  show ?case
  proof (cases "i < length (knowledge st)")
    case True
    have eq: "infer_from i st = infer_from (Suc i) (infer_step i st)"
      using True by (simp add: infer_from.simps[of i st])
    show ?thesis
      unfolding eq using 1[OF True] infer_step_frame[where i=i and st=st] by auto
  next
    case False
    then show ?thesis by (simp add: infer_from.simps[of i st])
  qed
qed

lemma add_knowledge_returns_frame:
  assumes "add_knowledge c n st = Inr st'"
  shows "height st' = height st" "width st' = width st"
    "accounted_mines st' = accounted_mines st"
    "set (safes st) \<subseteq> set (safes st')" "set (mines st) \<subseteq> set (mines st')"
    "c \<in> set (safes st')"
    "distinct (mines st) \<Longrightarrow> distinct (mines st')"
proof -
  from assms obtain st3 where
    st3: "add_sentence c n st = Inr st3" "st' = infer_from 0 st3"
    unfolding add_knowledge_Inr by blast
  note a = add_sentence_returns[OF st3(1)] and b = infer_from_frame[where i=0 and st=st3]
  show "height st' = height st" using a b by (simp add: st3(2))
  show "width st' = width st" using a b by (simp add: st3(2))
  show "accounted_mines st' = accounted_mines st" using a b by (simp add: st3(2))
  show "set (safes st) \<subseteq> set (safes st')" using a(5) b unfolding st3(2) by blast
  show "set (mines st) \<subseteq> set (mines st')" using a(3) b unfolding st3(2) by auto
  show "c \<in> set (safes st')" using a(5) b unfolding st3(2) by blast
  show "distinct (mines st) \<Longrightarrow> distinct (mines st')" using a(3) b unfolding st3(2) by auto
qed

lemma add_knowledge_raises_frame:
  assumes "add_knowledge c n st = Inl (e, st')"
  shows "height st' = height st" "width st' = width st"
    "accounted_mines st' = accounted_mines st"
    "set (safes st) \<subseteq> set (safes st')" "mines st' = mines st"
    "c \<in> set (safes st')"
  using add_sentence_raises[of c n st e st'] assms unfolding add_knowledge_Inl
  by auto

lemma known_total_mono:
  "set (safes st) \<subseteq> set (safes st') \<Longrightarrow> set (mines st) \<subseteq> set (mines st') \<Longrightarrow>
   known_total st \<le> known_total st'"
  unfolding known_total_def
  by (intro add_mono card_mono) simp_all

subsection \<open>One reveal on a board of one row and two columns\<close>

lemma add_knowledge_1x2:
  "add_knowledge (0, 0) 1 (MinesweeperAI 1 2) =
     Inr \<lparr>height = 1, width = 2, moves_made = [(0, 0)], mines = [], safes = [(0, 0)],
          accounted_mines = [], knowledge = [\<lparr>cells = [(0, 1)], count = 1\<rparr>]\<rparr>"
  by code_simp

text \<open>
  C1. \<^verbatim>\<open>add_knowledge\<close> does not return at a fixed point of the inference rules. On the
  board of one row and two columns, \<^verbatim>\<open>add_knowledge((0, 0), 1)\<close> on a new agent returns
  with the single sentence \<open>{(0, 1)} = 1\<close> in the knowledge list: \<^verbatim>\<open>known_mines()\<close> of that
  sentence is \<open>{(0, 1)}\<close>, and \<open>(0, 1)\<close> is not in \<^verbatim>\<open>mines\<close>. The method never calls
  \<^verbatim>\<open>known_mines\<close> or \<^verbatim>\<open>known_safes\<close> and makes one pass over the list.
\<close>

theorem add_knowledge_not_closed:
  "\<exists>st s. add_knowledge (0, 0) 1 (MinesweeperAI 1 2) = Inr st \<and> knowledge st = [s] \<and>
          known_mines s = [(0, 1)] \<and> (0, 1) \<notin> set (mines st)"
  by (simp add: add_knowledge_1x2 known_mines_def)

text \<open>
  C2. On the board of one row and two columns with the mine at \<open>(0, 1)\<close>, the call
  \<^verbatim>\<open>add_knowledge((0, 0), 1)\<close> on a new agent returns with \<^verbatim>\<open>mines\<close> empty: the mine cell
  stays in the sentence \<open>{(0, 1)} = 1\<close> and is not marked.
\<close>

theorem add_knowledge_1x2_mine_unmarked:
  "\<exists>st. add_knowledge (0, 0) 1 (MinesweeperAI 1 2) = Inr st \<and> mines st = [] \<and>
        knowledge st = [\<lparr>cells = [(0, 1)], count = 1\<rparr>]"
  by (simp add: add_knowledge_1x2)

subsection \<open>The subset rule, in both orders\<close>

text \<open>
  A board of two rows and three columns. When \<open>{(0, 1), (1, 0), (1, 1)} = 1\<close> is in the
  knowledge and the reveal of \<open>(0, 2)\<close> adds \<open>{(0, 1), (1, 1)} = 1\<close>, the branch for a
  new sentence that is the subset marks \<open>(1, 0)\<close> safe.
\<close>

lemma subset_rule_applies_for_new_subset:
  "last (add_knowledge_trace (MinesweeperAI 2 3) [((1, 2), 1), ((0, 0), 1), ((0, 2), 1)]) =
     \<lparr>height = 2, width = 3, moves_made = [(1, 2), (0, 0), (0, 2)], mines = [],
      safes = [(1, 2), (0, 0), (0, 2), (1, 0)], accounted_mines = [],
      knowledge =
        [\<lparr>cells = [(0, 1), (1, 1)], count = 1\<rparr>,
         \<lparr>cells = [(0, 1), (1, 1)], count = 1\<rparr>,
         \<lparr>cells = [(0, 1), (1, 1)], count = 1\<rparr>]\<rparr>"
  by code_simp

text \<open>
  C3. A board of two rows and three columns with its only mine at \<open>(0, 1)\<close>; the cells are
  \<open>A = (0, 1)\<close>, \<open>B = (1, 1)\<close> and \<open>C = (1, 0)\<close>. After the reveals of \<open>(1, 2)\<close> and
  \<open>(0, 2)\<close> the knowledge holds \<open>{A, B} = 1\<close>; the reveal of \<open>(0, 0)\<close> then adds
  \<open>{A, B, C} = 1\<close>. The run returns with both sentences in the knowledge list and \<open>C\<close> not
  in \<^verbatim>\<open>safes\<close>: the branch for a new sentence that is the superset tests
  \<^verbatim>\<open>new_sentence.count == 0\<close>, where the branch for a subset tests the difference of the
  two counts.
\<close>

theorem subset_rule_missed_for_new_superset:
  "length (add_knowledge_trace (MinesweeperAI 2 3) [((1, 2), 1), ((0, 2), 1), ((0, 0), 1)]) = 4 \<and>
   last (add_knowledge_trace (MinesweeperAI 2 3) [((1, 2), 1), ((0, 2), 1), ((0, 0), 1)]) =
     \<lparr>height = 2, width = 3, moves_made = [(1, 2), (0, 2), (0, 0)], mines = [],
      safes = [(1, 2), (0, 2), (0, 0)], accounted_mines = [],
      knowledge =
        [\<lparr>cells = [(0, 1), (1, 1)], count = 1\<rparr>,
         \<lparr>cells = [(0, 1), (1, 1)], count = 1\<rparr>,
         \<lparr>cells = [(0, 1), (1, 0), (1, 1)], count = 1\<rparr>]\<rparr>"
  by code_simp

subsection \<open>Marking a cell safe and the moves made\<close>

text \<open>
  C4, as the claim states it, fails: after \<^verbatim>\<open>add_knowledge((0, 0), 1)\<close> on a new agent for
  the board of one row and two columns, \<^verbatim>\<open>moves_made\<close> is \<open>{(0, 0)}\<close>, and
  \<^verbatim>\<open>mark_safe((0, 0))\<close> empties it.
\<close>

theorem mark_safe_removes_move:
  "add_knowledge (0, 0) 1 (MinesweeperAI 1 2) =
     Inr \<lparr>height = 1, width = 2, moves_made = [(0, 0)], mines = [], safes = [(0, 0)],
          accounted_mines = [], knowledge = [\<lparr>cells = [(0, 1)], count = 1\<rparr>]\<rparr> \<and>
   moves_made (mark_safe (0, 0)
     \<lparr>height = 1, width = 2, moves_made = [(0, 0)], mines = [], safes = [(0, 0)],
      accounted_mines = [], knowledge = [\<lparr>cells = [(0, 1)], count = 1\<rparr>]\<rparr>) = []"
  by (simp add: add_knowledge_1x2)

text \<open>
  C4, amended: \<^verbatim>\<open>mark_safe(cell)\<close> takes \<open>cell\<close> itself out of \<^verbatim>\<open>moves_made\<close> and no other
  cell, so \<^verbatim>\<open>moves_made\<close> is as before when \<open>cell\<close> was not a move made; \<^verbatim>\<open>mark_mine\<close>
  leaves \<^verbatim>\<open>moves_made\<close> as it is.
\<close>

theorem mark_safe_moves_made:
  "set (moves_made (mark_safe c st)) = set (moves_made st) - {c} \<and>
   moves_made (mark_mine c st) = moves_made st"
  by simp

subsection \<open>Disjointness of safes, mines and sentence cells\<close>

lemma pairwise_disjoint_MinesweeperAI: "pairwise_disjoint (MinesweeperAI h w)"
  by (simp add: pairwise_disjoint_def MinesweeperAI_def)

lemma pairwise_disjoint_mark_mine:
  "pairwise_disjoint st \<Longrightarrow> c \<notin> set (safes st) \<Longrightarrow> pairwise_disjoint (mark_mine c st)"
  by (auto simp: pairwise_disjoint_iff)

lemma pairwise_disjoint_mark_safe:
  "pairwise_disjoint st \<Longrightarrow> c \<notin> set (mines st) \<Longrightarrow> pairwise_disjoint (mark_safe c st)"
  by (auto simp: pairwise_disjoint_iff)

lemma add_knowledge_in_bounds:
  "in_bounds st c \<Longrightarrow> \<exists>st'. add_knowledge c n st = Inr st'"
  using add_sentence_in_bounds[of st c n] by (auto simp: add_knowledge_Inr)

lemma add_knowledge_out_of_bounds:
  "\<not> in_bounds st c \<Longrightarrow> \<exists>st'. add_knowledge c n st = Inl (KeyError, st')"
  using add_sentence_out_of_bounds[of st c n] by (simp add: add_knowledge_Inl)

text \<open>
  C5, as the claim states it, fails: on a new agent, \<^verbatim>\<open>mark_safe((0, 0))\<close> followed by
  \<^verbatim>\<open>mark_mine((0, 0))\<close> leaves \<open>(0, 0)\<close> in both \<^verbatim>\<open>safes\<close> and \<^verbatim>\<open>mines\<close>.
\<close>

theorem mark_mine_keeps_safe_cell:
  "pairwise_disjoint (MinesweeperAI 1 2) \<and>
   (0, 0) \<in> set (safes (mark_mine (0, 0) (mark_safe (0, 0) (MinesweeperAI 1 2)))) \<and>
   (0, 0) \<in> set (mines (mark_mine (0, 0) (mark_safe (0, 0) (MinesweeperAI 1 2)))) \<and>
   \<not> pairwise_disjoint (mark_mine (0, 0) (mark_safe (0, 0) (MinesweeperAI 1 2)))"
proof -
  let ?st = "mark_mine (0, 0) (mark_safe (0, 0) (MinesweeperAI 1 2))"
  have a: "(0, 0) \<in> set (safes ?st)" and b: "(0, 0) \<in> set (mines ?st)"
    by simp_all
  from a b have "\<not> pairwise_disjoint ?st"
    unfolding pairwise_disjoint_def by blast
  with a b show ?thesis
    using pairwise_disjoint_MinesweeperAI[of 1 2] by simp
qed

text \<open>
  C5, amended: when \<^verbatim>\<open>safes\<close>, \<^verbatim>\<open>mines\<close> and the cells of every sentence are pairwise
  disjoint before the operation, they are so after \<^verbatim>\<open>mark_mine\<close> on a cell that is not in
  \<^verbatim>\<open>safes\<close>, after \<^verbatim>\<open>mark_safe\<close> on a cell that is not in \<^verbatim>\<open>mines\<close>, and after
  \<^verbatim>\<open>add_knowledge\<close> on an in-bounds cell that is not in \<^verbatim>\<open>mines\<close>, which returns.
\<close>

theorem pairwise_disjoint_preserved:
  assumes "pairwise_disjoint st"
  shows "(c \<notin> set (safes st) \<longrightarrow> pairwise_disjoint (mark_mine c st)) \<and>
         (c \<notin> set (mines st) \<longrightarrow> pairwise_disjoint (mark_safe c st)) \<and>
         (c \<notin> set (mines st) \<longrightarrow> in_bounds st c \<longrightarrow>
            (\<exists>st'. add_knowledge c n st = Inr st' \<and> pairwise_disjoint st'))"
proof (intro conjI impI)
  assume "c \<notin> set (safes st)"
  with assms show "pairwise_disjoint (mark_mine c st)"
    by (rule pairwise_disjoint_mark_mine)
next
  assume "c \<notin> set (mines st)"
  with assms show "pairwise_disjoint (mark_safe c st)"
    by (rule pairwise_disjoint_mark_safe)
next
  assume c: "c \<notin> set (mines st)" and "in_bounds st c"
  then obtain st' where st': "add_knowledge c n st = Inr st'"
    using add_knowledge_in_bounds by blast
  with assms c have "pairwise_disjoint st'"
    by (rule pairwise_disjoint_add_knowledge_returns)
  with st' show "\<exists>st'. add_knowledge c n st = Inr st' \<and> pairwise_disjoint st'"
    by blast
qed

theorem pairwise_disjoint_preserved_witness:
  "pairwise_disjoint (MinesweeperAI 1 2) \<and>
   (0, 1) \<notin> set (safes (MinesweeperAI 1 2)) \<and>
   (0, 0) \<notin> set (mines (MinesweeperAI 1 2)) \<and>
   in_bounds (MinesweeperAI 1 2) (0, 0) \<and>
   pairwise_disjoint (mark_mine (0, 1) (MinesweeperAI 1 2)) \<and>
   pairwise_disjoint (mark_safe (0, 0) (MinesweeperAI 1 2)) \<and>
   (\<exists>st'. add_knowledge (0, 0) 1 (MinesweeperAI 1 2) = Inr st' \<and> pairwise_disjoint st')"
proof -
  have h: "pairwise_disjoint (MinesweeperAI 1 2)"
    by (rule pairwise_disjoint_MinesweeperAI)
  have a: "(0, 1) \<notin> set (safes (MinesweeperAI 1 2))"
    "(0, 0) \<notin> set (mines (MinesweeperAI 1 2))"
    "in_bounds (MinesweeperAI 1 2) (0, 0)"
    by (simp_all add: MinesweeperAI_def in_bounds_def)
  show ?thesis
    using h a pairwise_disjoint_preserved[OF h, of "(0, 1)" 1]
      pairwise_disjoint_preserved[OF h, of "(0, 0)" 1]
    by blast
qed

subsection \<open>Runs of \<^verbatim>\<open>add_knowledge\<close> calls\<close>

lemma add_knowledge_grows:
  "add_knowledge c n st = Inr st' \<Longrightarrow>
     set (safes st) \<subseteq> set (safes st') \<and> set (mines st) \<subseteq> set (mines st')"
  "add_knowledge c n st = Inl (e, st') \<Longrightarrow>
     set (safes st) \<subseteq> set (safes st') \<and> set (mines st) \<subseteq> set (mines st')"
  using add_knowledge_returns_frame(4,5)[of c n st st']
    add_knowledge_raises_frame(4,5)[of c n st e st']
  by simp_all

lemma add_knowledge_trace_grows:
  "s \<in> set (add_knowledge_trace st calls) \<Longrightarrow>
     set (safes st) \<subseteq> set (safes s) \<and> set (mines st) \<subseteq> set (mines s)"
proof (induction calls arbitrary: st)
  case Nil
  then show ?case by simp
next
  case (Cons call calls)
  obtain c n where call: "call = (c, n)" by (cases call)
  show ?case
  proof (cases "add_knowledge c n st")
    case (Inl a)
    obtain e st' where a: "a = (e, st')" by (cases a)
    have "s = st \<or> s = st'"
      using Cons.prems call Inl a by auto
    then show ?thesis
      using add_knowledge_grows(2)[of c n st e st'] Inl a by auto
  next
    case (Inr st')
    have "s = st \<or> s \<in> set (add_knowledge_trace st' calls)"
      using Cons.prems call Inr by auto
    then show ?thesis
      using Cons.IH[of st'] add_knowledge_grows(1)[OF Inr] by blast
  qed
qed

lemma add_knowledge_trace_sorted:
  "sorted_wrt (\<lambda>s s'. set (safes s) \<subseteq> set (safes s') \<and> set (mines s) \<subseteq> set (mines s'))
     (add_knowledge_trace st calls)"
proof (induction calls arbitrary: st)
  case Nil
  then show ?case by simp
next
  case (Cons call calls)
  obtain c n where call: "call = (c, n)" by (cases call)
  show ?case
  proof (cases "add_knowledge c n st")
    case (Inl a)
    obtain e st' where a: "a = (e, st')" by (cases a)
    show ?thesis
      using add_knowledge_grows(2)[of c n st e st'] Inl a call by simp
  next
    case (Inr st')
    have "\<forall>s \<in> set (add_knowledge_trace st' calls).
            set (safes st) \<subseteq> set (safes s) \<and> set (mines st) \<subseteq> set (mines s)"
      using add_knowledge_trace_grows[of _ st' calls] add_knowledge_grows(1)[OF Inr] by blast
    then show ?thesis
      using Cons.IH[of st'] Inr call by simp
  qed
qed

lemma add_knowledge_trace_disjoint:
  "pairwise_disjoint st \<Longrightarrow> no_mine_probed st calls \<Longrightarrow>
   s \<in> set (add_knowledge_trace st calls) \<Longrightarrow> pairwise_disjoint s"
proof (induction calls arbitrary: st)
  case Nil
  then show ?case by simp
next
  case (Cons call calls)
  obtain c n where call: "call = (c, n)" by (cases call)
  have c: "c \<notin> set (mines st)"
    using Cons.prems(2) call by simp
  show ?case
  proof (cases "add_knowledge c n st")
    case (Inl a)
    obtain e st' where a: "a = (e, st')" by (cases a)
    have "pairwise_disjoint st'"
      using Cons.prems(1) c Inl unfolding a by (rule pairwise_disjoint_add_knowledge_raises)
    moreover have "s = st \<or> s = st'"
      using Cons.prems(3) call Inl a by auto
    ultimately show ?thesis using Cons.prems(1) by auto
  next
    case (Inr st')
    have d: "pairwise_disjoint st'"
      using Cons.prems(1) c Inr by (rule pairwise_disjoint_add_knowledge_returns)
    have p: "no_mine_probed st' calls"
      using Cons.prems(2) call Inr by simp
    have "s = st \<or> s \<in> set (add_knowledge_trace st' calls)"
      using Cons.prems(3) call Inr by auto
    then show ?thesis
      using Cons.IH[OF d p] Cons.prems(1) by blast
  qed
qed

text \<open>
  C6, as the claim states it, fails. On a board of one row and three columns, the reveals
  \<open>((0, 1), 1)\<close> and \<open>((0, 0), 0)\<close> make the agent mark \<open>(0, 2)\<close> as a mine; a third
  call \<^verbatim>\<open>add_knowledge((0, 2), 0)\<close>, on an in-bounds cell, then adds \<open>(0, 2)\<close> to
  \<^verbatim>\<open>safes\<close> and leaves it in \<^verbatim>\<open>mines\<close>.
\<close>

theorem add_knowledge_on_known_mine:
  "last (add_knowledge_trace (MinesweeperAI 1 3) [((0, 1), 1), ((0, 0), 0), ((0, 2), 0)]) =
     \<lparr>height = 1, width = 3, moves_made = [(0, 1), (0, 0), (0, 2)], mines = [(0, 2)],
      safes = [(0, 1), (0, 0), (0, 2)], accounted_mines = [],
      knowledge = [\<lparr>cells = [], count = 0\<rparr>, \<lparr>cells = [], count = 0\<rparr>,
                   \<lparr>cells = [], count = 0\<rparr>]\<rparr>"
  by code_simp

text \<open>
  C6, amended. For every finite sequence of \<^verbatim>\<open>add_knowledge\<close> calls, from any state, no call
  shrinks \<^verbatim>\<open>safes\<close> or \<^verbatim>\<open>mines\<close>, so \<open>|safes| + |mines|\<close> is non-decreasing across the
  sequence. When the first state has \<^verbatim>\<open>safes\<close>, \<^verbatim>\<open>mines\<close> and the sentence cells pairwise
  disjoint (a new agent has) and no call is made on a cell that is in \<^verbatim>\<open>mines\<close> at the
  time of the call, no cell is in both \<^verbatim>\<open>safes\<close> and \<^verbatim>\<open>mines\<close> at any point.
\<close>

theorem add_knowledge_trace_monotone:
  "sorted_wrt (\<lambda>s s'. set (safes s) \<subseteq> set (safes s') \<and> set (mines s) \<subseteq> set (mines s'))
     (add_knowledge_trace st calls) \<and>
   sorted (map known_total (add_knowledge_trace st calls)) \<and>
   (pairwise_disjoint st \<longrightarrow> no_mine_probed st calls \<longrightarrow>
      (\<forall>s \<in> set (add_knowledge_trace st calls). set (safes s) \<inter> set (mines s) = {}))"
proof (intro conjI impI ballI)
  show g: "sorted_wrt (\<lambda>s s'. set (safes s) \<subseteq> set (safes s') \<and> set (mines s) \<subseteq> set (mines s'))
     (add_knowledge_trace st calls)"
    by (rule add_knowledge_trace_sorted)
  have "sorted_wrt (\<lambda>s s'. known_total s \<le> known_total s') (add_knowledge_trace st calls)"
    by (rule sorted_wrt_mono_rel[OF _ g]) (simp add: known_total_mono)
  then show "sorted (map known_total (add_knowledge_trace st calls))"
    by (simp add: sorted_map)
next
  fix s
  assume "pairwise_disjoint st" "no_mine_probed st calls" "s \<in> set (add_knowledge_trace st calls)"
  then have "pairwise_disjoint s"
    by (rule add_knowledge_trace_disjoint)
  then show "set (safes s) \<inter> set (mines s) = {}"
    by (simp add: pairwise_disjoint_def)
qed

lemma trace_1x3:
  "add_knowledge_trace (MinesweeperAI 1 3) [((0, 1), 1), ((0, 0), 0)] =
     [\<lparr>height = 1, width = 3, moves_made = [], mines = [], safes = [],
       accounted_mines = [], knowledge = []\<rparr>,
      \<lparr>height = 1, width = 3, moves_made = [(0, 1)], mines = [], safes = [(0, 1)],
       accounted_mines = [], knowledge = [\<lparr>cells = [(0, 0), (0, 2)], count = 1\<rparr>]\<rparr>,
      \<lparr>height = 1, width = 3, moves_made = [(0, 1), (0, 0)], mines = [(0, 2)],
       safes = [(0, 1), (0, 0)], accounted_mines = [],
       knowledge = [\<lparr>cells = [], count = 0\<rparr>, \<lparr>cells = [], count = 0\<rparr>]\<rparr>]"
  by code_simp

lemma no_mine_probed_1x3:
  "no_mine_probed (MinesweeperAI 1 3) [((0, 1), 1), ((0, 0), 0)]"
  by code_simp

theorem add_knowledge_trace_monotone_witness:
  "pairwise_disjoint (MinesweeperAI 1 3) \<and>
   no_mine_probed (MinesweeperAI 1 3) [((0, 1), 1), ((0, 0), 0)] \<and>
   map known_total (add_knowledge_trace (MinesweeperAI 1 3) [((0, 1), 1), ((0, 0), 0)]) = [0, 1, 3] \<and>
   sorted (map known_total (add_knowledge_trace (MinesweeperAI 1 3) [((0, 1), 1), ((0, 0), 0)])) \<and>
   set (safes (last (add_knowledge_trace (MinesweeperAI 1 3) [((0, 1), 1), ((0, 0), 0)]))) \<inter>
   set (mines (last (add_knowledge_trace (MinesweeperAI 1 3) [((0, 1), 1), ((0, 0), 0)]))) = {}"
proof -
  let ?T = "add_knowledge_trace (MinesweeperAI 1 3) [((0, 1), 1), ((0, 0), 0)]"
  have h: "pairwise_disjoint (MinesweeperAI 1 3)"
    by (rule pairwise_disjoint_MinesweeperAI)
  have p: "no_mine_probed (MinesweeperAI 1 3) [((0, 1), 1), ((0, 0), 0)]"
    by (rule no_mine_probed_1x3)
  have l: "last ?T \<in> set ?T"
    unfolding trace_1x3 by simp
  have k: "map known_total ?T = [0, 1, 3]"
    unfolding trace_1x3 by (simp add: known_total_def)
  from add_knowledge_trace_monotone[of "MinesweeperAI 1 3" "[((0, 1), 1), ((0, 0), 0)]"] h p l
  have "sorted (map known_total ?T)" and "set (safes (last ?T)) \<inter> set (mines (last ?T)) = {}"
    by blast+
  with h p k show ?thesis by blast
qed

subsection \<open>Cells outside the board\<close>

text \<open>
  C7, as the claim states it, fails. On a new agent for the board of one row and two
  columns, \<^verbatim>\<open>mark_mine((5, 5))\<close> and \<^verbatim>\<open>mark_safe((5, 5))\<close> return and record the cell, and
  \<^verbatim>\<open>add_knowledge((5, 5), 0)\<close> raises \<^verbatim>\<open>KeyError\<close> with \<open>(5, 5)\<close> already in \<^verbatim>\<open>safes\<close> and
  in \<^verbatim>\<open>moves_made\<close>.
\<close>

theorem out_of_bounds_cell_recorded:
  "mines (mark_mine (5, 5) (MinesweeperAI 1 2)) = [(5, 5)] \<and>
   safes (mark_safe (5, 5) (MinesweeperAI 1 2)) = [(5, 5)] \<and>
   add_knowledge (5, 5) 0 (MinesweeperAI 1 2) =
     Inl (KeyError,
          \<lparr>height = 1, width = 2, moves_made = [(5, 5)], mines = [], safes = [(5, 5)],
           accounted_mines = [], knowledge = []\<rparr>)"
  by code_simp

text \<open>
  C7, amended. \<^verbatim>\<open>add_knowledge\<close> on a cell outside \<open>[0, height) \<times> [0, width)\<close> reports the
  violation: it raises \<^verbatim>\<open>KeyError\<close> (from \<^verbatim>\<open>get_neighbors\<close>, which does not clamp the cell
  itself). It does so after \<^verbatim>\<open>mark_safe(cell)\<close> has run: the state it leaves has the cell in
  \<^verbatim>\<open>safes\<close> and out of every sentence, with \<^verbatim>\<open>mines\<close> as before and no sentence added.
  \<^verbatim>\<open>mark_mine\<close> and \<^verbatim>\<open>mark_safe\<close> make no check and record the cell.
\<close>

theorem out_of_bounds_cell:
  assumes "\<not> in_bounds st c"
  shows "(\<exists>st'. add_knowledge c n st = Inl (KeyError, st') \<and>
            c \<in> set (safes st') \<and> mines st' = mines st \<and>
            knowledge st' = map (Sentence_mark_safe c) (knowledge st)) \<and>
         c \<in> set (mines (mark_mine c st)) \<and>
         c \<in> set (safes (mark_safe c st))"
proof -
  from assms obtain st' where st': "add_knowledge c n st = Inl (KeyError, st')"
    using add_knowledge_out_of_bounds by blast
  then have s: "add_sentence c n st = Inl (KeyError, st')"
    by (simp add: add_knowledge_Inl)
  have "c \<in> set (safes st')" "mines st' = mines st"
    "knowledge st' = map (Sentence_mark_safe c) (knowledge st)"
    using add_sentence_raises(5,7,8)[OF s] by auto
  with st' show ?thesis by simp
qed

theorem out_of_bounds_cell_witness:
  "\<not> in_bounds (MinesweeperAI 1 2) (0, 2) \<and>
   (\<exists>st'. add_knowledge (0, 2) 1 (MinesweeperAI 1 2) = Inl (KeyError, st') \<and>
      (0, 2) \<in> set (safes st')) \<and>
   (0, 2) \<in> set (mines (mark_mine (0, 2) (MinesweeperAI 1 2))) \<and>
   (0, 2) \<in> set (safes (mark_safe (0, 2) (MinesweeperAI 1 2)))"
proof -
  have h: "\<not> in_bounds (MinesweeperAI 1 2) (0, 2)"
    by (simp add: in_bounds_def MinesweeperAI_def)
  show ?thesis
    using h out_of_bounds_cell[OF h, of 1] by blast
qed

subsection \<open>Choosing a safe move\<close>

lemma make_safe_move_eq:
  "make_safe_move st =
     (case filter (\<lambda>c. c \<notin> set (moves_made st)) (safes st) of
        [] \<Rightarrow> (None, st) | c # _ \<Rightarrow> (Some c, st))"
  by (simp add: make_safe_move_def split: list.splits)

lemma make_safe_move_Some:
  "fst (make_safe_move st) = Some c \<Longrightarrow> c \<in> set (safes st) \<and> c \<notin> set (moves_made st)"
proof -
  assume a: "fst (make_safe_move st) = Some c"
  then obtain cs where "filter (\<lambda>c. c \<notin> set (moves_made st)) (safes st) = c # cs"
    by (auto simp: make_safe_move_eq split: list.splits)
  then have "c \<in> set (filter (\<lambda>c. c \<notin> set (moves_made st)) (safes st))"
    by simp
  then show ?thesis by simp
qed

lemma make_safe_move_None:
  "fst (make_safe_move st) = None \<longleftrightarrow> set (safes st) - set (moves_made st) = {}"
proof -
  have "fst (make_safe_move st) = None \<longleftrightarrow>
        filter (\<lambda>c. c \<notin> set (moves_made st)) (safes st) = []"
    by (simp add: make_safe_move_eq split: list.splits)
  also have "\<dots> \<longleftrightarrow> set (safes st) - set (moves_made st) = {}"
    by (auto simp: filter_empty_conv)
  finally show ?thesis .
qed

text \<open>
  C8, as the claim states it, fails: \<^verbatim>\<open>make_safe_move\<close> does not look at \<^verbatim>\<open>mines\<close>. After
  \<^verbatim>\<open>mark_safe((0, 1))\<close> and \<^verbatim>\<open>mark_mine((0, 1))\<close> on a new agent it returns \<open>(0, 1)\<close>, which
  is in \<^verbatim>\<open>mines\<close>.
\<close>

theorem make_safe_move_returns_mine:
  "fst (make_safe_move (mark_mine (0, 1) (mark_safe (0, 1) (MinesweeperAI 1 2)))) = Some (0, 1) \<and>
   (0, 1) \<in> set (mines (mark_mine (0, 1) (mark_safe (0, 1) (MinesweeperAI 1 2))))"
  by code_simp

text \<open>
  C8, amended. For every agent state, \<^verbatim>\<open>make_safe_move\<close> returns \<^verbatim>\<open>None\<close> exactly when
  \<open>safes \<setminus> moves_made\<close> is empty, and otherwise a cell that is in \<^verbatim>\<open>safes\<close> and not in
  \<^verbatim>\<open>moves_made\<close>; the returned cell is not in \<^verbatim>\<open>mines\<close> when \<^verbatim>\<open>safes\<close> and \<^verbatim>\<open>mines\<close> are
  disjoint; the call changes nothing of the state.
\<close>

theorem make_safe_move_correct:
  "(fst (make_safe_move st) = None \<longleftrightarrow> set (safes st) - set (moves_made st) = {}) \<and>
   (\<forall>c. fst (make_safe_move st) = Some c \<longrightarrow>
      c \<in> set (safes st) \<and> c \<notin> set (moves_made st) \<and>
      (set (safes st) \<inter> set (mines st) = {} \<longrightarrow> c \<notin> set (mines st))) \<and>
   snd (make_safe_move st) = st"
proof (intro conjI allI impI)
  show "fst (make_safe_move st) = None \<longleftrightarrow> set (safes st) - set (moves_made st) = {}"
    by (rule make_safe_move_None)
  show "snd (make_safe_move st) = st"
    by (simp add: make_safe_move_eq split: list.splits)
next
  fix c assume a: "fst (make_safe_move st) = Some c"
  show "c \<in> set (safes st)" "c \<notin> set (moves_made st)"
    using make_safe_move_Some[OF a] by simp_all
  assume "set (safes st) \<inter> set (mines st) = {}"
  then show "c \<notin> set (mines st)"
    using make_safe_move_Some[OF a] by blast
qed

lemma make_safe_move_example:
  "fst (make_safe_move
     \<lparr>height = 1, width = 3, moves_made = [(0, 1)], mines = [(0, 2)], safes = [(0, 1), (0, 0)],
      accounted_mines = [], knowledge = []\<rparr>) = Some (0, 0)"
  by code_simp

theorem make_safe_move_correct_witness:
  "fst (make_safe_move
     \<lparr>height = 1, width = 3, moves_made = [(0, 1)], mines = [(0, 2)], safes = [(0, 1), (0, 0)],
      accounted_mines = [], knowledge = []\<rparr>) = Some (0, 0) \<and>
   (0, 0) \<notin> set (mines
     \<lparr>height = 1, width = 3, moves_made = [(0, 1)], mines = [(0, 2)], safes = [(0, 1), (0, 0)],
      accounted_mines = [], knowledge = []\<rparr>) \<and>
   set (safes (MinesweeperAI 1 3)) - set (moves_made (MinesweeperAI 1 3)) = {} \<and>
   fst (make_safe_move (MinesweeperAI 1 3)) = None"
proof -
  let ?st = "\<lparr>height = 1, width = 3, moves_made = [(0, 1)], mines = [(0, 2)],
    safes = [(0, 1), (0, 0)], accounted_mines = [], knowledge = []\<rparr>"
  have e: "set (safes (MinesweeperAI 1 3)) - set (moves_made (MinesweeperAI 1 3)) = {}"
    by (simp add: MinesweeperAI_def)
  have d: "set (safes ?st) \<inter> set (mines ?st) = {}"
    by simp
  have "(0, 0) \<notin> set (mines ?st)"
    using make_safe_move_correct[of ?st] make_safe_move_example d by blast
  moreover have "fst (make_safe_move (MinesweeperAI 1 3)) = None"
    using make_safe_move_correct[of "MinesweeperAI 1 3"] e by blast
  ultimately show ?thesis
    using make_safe_move_example e by blast
qed

subsection \<open>Playing a safe move\<close>

lemma card_set_removeAll:
  "c \<in> set xs \<Longrightarrow> card (set (removeAll c xs)) < card (set xs)"
  using card_Diff1_less[of "set xs" c] by simp

text \<open>
  C10. When \<^verbatim>\<open>make_safe_move\<close> finds a cell, \<^verbatim>\<open>play\<close> returns that cell, having added it
  to \<^verbatim>\<open>moves_made\<close> and removed it from \<^verbatim>\<open>safes\<close>: \<^verbatim>\<open>safes\<close> has one cell less than
  before, and the cell played is no longer recorded as safe.
\<close>

theorem play_removes_safe_move:
  assumes "fst (make_safe_move st) = Some c"
  shows "\<exists>st'. play r st = Inr (Some c, st') \<and>
           set (moves_made st') = insert c (set (moves_made st)) \<and>
           set (safes st') = set (safes st) - {c} \<and>
           c \<in> set (safes st) \<and> c \<notin> set (safes st') \<and>
           card (set (safes st')) < card (set (safes st)) \<and>
           mines st' = mines st \<and> knowledge st' = knowledge st"
proof -
  have c: "c \<in> set (safes st)"
    using make_safe_move_Some[OF assms] by simp
  let ?st' = "st\<lparr>moves_made := pyset_add c (moves_made st), safes := removeAll c (safes st)\<rparr>"
  have "play r st = Inr (Some c, ?st')"
    using assms c by (simp add: play_def Let_def pyset_remove_def)
  moreover have "card (set (safes ?st')) < card (set (safes st))"
    using card_set_removeAll[OF c] by simp
  ultimately show ?thesis using c by auto
qed

theorem play_removes_safe_move_witness:
  "fst (make_safe_move
     \<lparr>height = 1, width = 3, moves_made = [(0, 1)], mines = [(0, 2)], safes = [(0, 1), (0, 0)],
      accounted_mines = [], knowledge = []\<rparr>) = Some (0, 0) \<and>
   (\<exists>st'. play 0
     \<lparr>height = 1, width = 3, moves_made = [(0, 1)], mines = [(0, 2)], safes = [(0, 1), (0, 0)],
      accounted_mines = [], knowledge = []\<rparr> = Inr (Some (0, 0), st') \<and>
     (0, 0) \<notin> set (safes st') \<and> (0, 0) \<in> set (moves_made st'))"
proof -
  let ?st = "\<lparr>height = 1, width = 3, moves_made = [(0, 1)], mines = [(0, 2)],
    safes = [(0, 1), (0, 0)], accounted_mines = [], knowledge = []\<rparr>"
  have h: "fst (make_safe_move ?st) = Some (0, 0)"
    by (rule make_safe_move_example)
  show ?thesis
    using h play_removes_safe_move[OF h, of 0] by blast
qed

subsection \<open>The count of the new sentence\<close>

lemma play_frame:
  "play r st = Inr (m, st') \<Longrightarrow> accounted_mines st' = accounted_mines st \<and> mines st' = mines st"
  "play r st = Inl (e, st') \<Longrightarrow> accounted_mines st' = accounted_mines st \<and> mines st' = mines st"
  by (auto simp: play_def Let_def pyset_remove_def split: option.splits if_splits)

lemma reachable_invariant:
  "reachable st \<Longrightarrow> accounted_mines st = [] \<and> distinct (mines st)"
proof (induction rule: reachable.induct)
  case (init h w)
  then show ?case by (simp add: MinesweeperAI_def)
next
  case (mark_mine st c)
  then show ?case by simp
next
  case (mark_safe st c)
  then show ?case by simp
next
  case (add_knowledge_returns st c n st')
  then show ?case
    using add_knowledge_returns_frame(3,7)[of c n st st'] by simp
next
  case (add_knowledge_raises st c n e st')
  then show ?case
    using add_knowledge_raises_frame(3,5)[of c n st e st'] by simp
next
  case (play_returns st r m st')
  then show ?case using play_frame(1)[of r st m st'] by simp
next
  case (play_raises st r e st')
  then show ?case using play_frame(2)[of r st e st'] by simp
qed

lemma add_sentence_appends:
  assumes "get_neighbors st c = Inr nb" "accounted_mines st = []" "distinct (mines st)"
  shows "\<exists>st3 new_sentence.
           add_sentence c n st = Inr st3 \<and>
           knowledge st3 = map (Sentence_mark_safe c) (knowledge st) @ [new_sentence] \<and>
           set (cells new_sentence) =
             set nb - set (safes st3) - set (moves_made st3) - set (mines st) \<and>
           count new_sentence = n - int (card (set (mines st) \<inter> set nb))"
proof -
  let ?st1 = "mark_safe c st"
  have "adjust_count ?st1 c (mines ?st1) n = Inr (n - int (card (set (mines ?st1) \<inter> set nb)))"
    using assms by (intro adjust_count_closed) simp_all
  then have n': "adjust_count ?st1 c (mines st) n = Inr (n - int (card (set (mines st) \<inter> set nb)))"
    by simp
  show ?thesis
    using assms(1) n' by (simp add: add_sentence_def Let_def)
qed

text \<open>
  C9. In every state an agent can reach, \<^verbatim>\<open>accounted_mines\<close> is empty. For a cell whose
  neighbours \<^verbatim>\<open>get_neighbors\<close> returns, the loop over \<^verbatim>\<open>mines\<close> takes from \<open>count\<close> the
  number of cells that are both in \<^verbatim>\<open>mines\<close> and neighbours of the cell: one decrement for
  each known mine among the neighbours, none for any other cell. That is the count of the
  sentence which \<^verbatim>\<open>add_knowledge(cell, count)\<close> appends to the knowledge, marked safe for
  the cell, before its inference loop runs from the first sentence on; the call returns
  the state that loop ends in.
\<close>

theorem count_adjusted_per_known_mine:
  assumes "reachable st"
  shows "accounted_mines st = [] \<and>
         (\<forall>c n nb. get_neighbors st c = Inr nb \<longrightarrow>
            adjust_count st c (mines st) n = Inr (n - int (card (set (mines st) \<inter> set nb))) \<and>
            (\<exists>st3 new_sentence.
               add_knowledge c n st = Inr (infer_from 0 st3) \<and>
               add_sentence c n st = Inr st3 \<and>
               knowledge st3 = map (Sentence_mark_safe c) (knowledge st) @ [new_sentence] \<and>
               set (cells new_sentence) =
                 set nb - set (safes st3) - set (moves_made st3) - set (mines st) \<and>
               count new_sentence = n - int (card (set (mines st) \<inter> set nb))))"
proof (intro conjI allI impI)
  have inv: "accounted_mines st = []" "distinct (mines st)"
    using reachable_invariant[OF assms] by simp_all
  show "accounted_mines st = []" by (rule inv(1))
  fix c n nb
  assume g: "get_neighbors st c = Inr nb"
  show "adjust_count st c (mines st) n = Inr (n - int (card (set (mines st) \<inter> set nb)))"
    using g inv by (rule adjust_count_closed)
  from add_sentence_appends[OF g inv, of n] obtain st3 new_sentence where
    s: "add_sentence c n st = Inr st3"
       "knowledge st3 = map (Sentence_mark_safe c) (knowledge st) @ [new_sentence]"
       "set (cells new_sentence) =
          set nb - set (safes st3) - set (moves_made st3) - set (mines st)"
       "count new_sentence = n - int (card (set (mines st) \<inter> set nb))"
    by blast
  have "add_knowledge c n st = Inr (infer_from 0 st3)"
    using s(1) by (simp add: add_knowledge_def)
  with s show "\<exists>st3 new_sentence.
       add_knowledge c n st = Inr (infer_from 0 st3) \<and>
       add_sentence c n st = Inr st3 \<and>
       knowledge st3 = map (Sentence_mark_safe c) (knowledge st) @ [new_sentence] \<and>
       set (cells new_sentence) =
         set nb - set (safes st3) - set (moves_made st3) - set (mines st) \<and>
       count new_sentence = n - int (card (set (mines st) \<inter> set nb))"
    by blast
qed

lemma get_neighbors_example:
  "get_neighbors (mark_mine (0, 1) (MinesweeperAI 1 3)) (0, 0) = Inr [(0, 1)]"
  by code_simp

lemma add_knowledge_example:
  "add_knowledge (0, 0) 1 (mark_mine (0, 1) (MinesweeperAI 1 3)) =
     Inr \<lparr>height = 1, width = 3, moves_made = [(0, 0)], mines = [(0, 1)], safes = [(0, 0)],
          accounted_mines = [], knowledge = [\<lparr>cells = [], count = 0\<rparr>]\<rparr>"
  by code_simp

theorem count_adjusted_per_known_mine_witness:
  "reachable (mark_mine (0, 1) (MinesweeperAI 1 3)) \<and>
   get_neighbors (mark_mine (0, 1) (MinesweeperAI 1 3)) (0, 0) = Inr [(0, 1)] \<and>
   mines (mark_mine (0, 1) (MinesweeperAI 1 3)) = [(0, 1)] \<and>
   accounted_mines (mark_mine (0, 1) (MinesweeperAI 1 3)) = [] \<and>
   adjust_count (mark_mine (0, 1) (MinesweeperAI 1 3)) (0, 0) [(0, 1)] 1 = Inr 0 \<and>
   (\<exists>st3 new_sentence.
      add_knowledge (0, 0) 1 (mark_mine (0, 1) (MinesweeperAI 1 3)) = Inr (infer_from 0 st3) \<and>
      infer_from 0 st3 =
        \<lparr>height = 1, width = 3, moves_made = [(0, 0)], mines = [(0, 1)], safes = [(0, 0)],
         accounted_mines = [], knowledge = [\<lparr>cells = [], count = 0\<rparr>]\<rparr> \<and>
      knowledge st3 = [new_sentence] \<and> count new_sentence = 0)"
proof -
  let ?st = "mark_mine (0, 1) (MinesweeperAI 1 3)"
  have r: "reachable ?st"
    by (intro reachable.mark_mine reachable.init)
  have g: "get_neighbors ?st (0, 0) = Inr [(0, 1)]"
    by (rule get_neighbors_example)
  have m: "mines ?st = [(0, 1)]"
    by (simp add: MinesweeperAI_def pyset_add_def)
  have e: "knowledge ?st = []"
    by (simp add: MinesweeperAI_def)
  have k: "(1::int) - int (card (set (mines ?st) \<inter> set [(0, 1)])) = 0"
    by (simp add: m)
  from count_adjusted_per_known_mine[OF r] g
  have a: "accounted_mines ?st = []"
    and b: "adjust_count ?st (0, 0) (mines ?st) 1 =
           Inr (1 - int (card (set (mines ?st) \<inter> set [(0, 1)])))"
    and "\<exists>st3 new_sentence.
           add_knowledge (0, 0) 1 ?st = Inr (infer_from 0 st3) \<and>
           knowledge st3 = map (Sentence_mark_safe (0, 0)) (knowledge ?st) @ [new_sentence] \<and>
           count new_sentence = 1 - int (card (set (mines ?st) \<inter> set [(0, 1)]))"
    by blast+
  then obtain st3 new_sentence where
    c: "add_knowledge (0, 0) 1 ?st = Inr (infer_from 0 st3)"
       "knowledge st3 = [new_sentence]" "count new_sentence = 0"
    unfolding k e by auto
  from c(1) have "infer_from 0 st3 =
      \<lparr>height = 1, width = 3, moves_made = [(0, 0)], mines = [(0, 1)], safes = [(0, 0)],
       accounted_mines = [], knowledge = [\<lparr>cells = [], count = 0\<rparr>]\<rparr>"
    unfolding add_knowledge_example by simp
  with c have "\<exists>st3 new_sentence.
      add_knowledge (0, 0) 1 ?st = Inr (infer_from 0 st3) \<and>
      infer_from 0 st3 =
        \<lparr>height = 1, width = 3, moves_made = [(0, 0)], mines = [(0, 1)], safes = [(0, 0)],
         accounted_mines = [], knowledge = [\<lparr>cells = [], count = 0\<rparr>]\<rparr> \<and>
      knowledge st3 = [new_sentence] \<and> count new_sentence = 0"
    by blast
  then show ?thesis
    using r g m a b unfolding k m by simp
qed

subsection \<open>The lists stay free of duplicates\<close>

text \<open>
  The lists of a state an agent can reach have no duplicates, so each of them stands for
  a Python set, and \<open>length\<close> is \<^verbatim>\<open>len\<close>.
\<close>

lemma distinct_cells_Sentence_mark [simp]:
  "distinct (cells s) \<Longrightarrow> distinct (cells (Sentence_mark_safe c s))"
  "distinct (cells s) \<Longrightarrow> distinct (cells (Sentence_mark_mine c s))"
  by (simp_all add: Sentence_mark_safe_def Sentence_mark_mine_def distinct_removeAll)

lemma duplicate_free_mark_safe: "duplicate_free st \<Longrightarrow> duplicate_free (mark_safe c st)"
  by (auto simp: duplicate_free_def distinct_removeAll)

lemma duplicate_free_mark_mine: "duplicate_free st \<Longrightarrow> duplicate_free (mark_mine c st)"
  by (auto simp: duplicate_free_def)

lemma duplicate_free_fold_mark_safe:
  "duplicate_free st \<Longrightarrow> duplicate_free (fold mark_safe cs st)"
  by (induction cs arbitrary: st) (simp_all add: duplicate_free_mark_safe)

lemma duplicate_free_fold_mark_mine:
  "duplicate_free st \<Longrightarrow> duplicate_free (fold mark_mine cs st)"
  by (induction cs arbitrary: st) (simp_all add: duplicate_free_mark_mine)

lemma duplicate_free_infer_step: "duplicate_free st \<Longrightarrow> duplicate_free (infer_step i st)"
  by (simp add: infer_step_def Let_def duplicate_free_fold_mark_safe
      duplicate_free_fold_mark_mine)

lemma duplicate_free_infer_from: "duplicate_free st \<Longrightarrow> duplicate_free (infer_from i st)"
proof (induction i st rule: infer_from.induct)
  case (1 i st)
  show ?case
  proof (cases "i < length (knowledge st)")
    case True
    then show ?thesis
      using 1 by (simp add: infer_from.simps[of i st] duplicate_free_infer_step)
  next
    case False
    then show ?thesis using 1 by (simp add: infer_from.simps[of i st])
  qed
qed

lemma duplicate_free_add_sentence:
  assumes "duplicate_free st"
  shows "add_sentence c n st = Inr st' \<Longrightarrow> duplicate_free st'"
    and "add_sentence c n st = Inl (e, st') \<Longrightarrow> duplicate_free st'"
proof -
  let ?st1 = "mark_safe c st"
  let ?st2 = "?st1\<lparr>moves_made := pyset_add c (moves_made ?st1)\<rparr>"
  have d1: "duplicate_free ?st1"
    using assms by (rule duplicate_free_mark_safe)
  then have d2: "duplicate_free ?st2"
    by (simp add: duplicate_free_def)
  have d3: "duplicate_free (?st2\<lparr>knowledge := knowledge ?st2 @ [Sentence cs k]\<rparr>)" for cs k
    using d2 by (auto simp: duplicate_free_def Sentence_def)
  show "add_sentence c n st = Inr st' \<Longrightarrow> duplicate_free st'"
    using d3 by (auto simp: add_sentence_def Let_def split: sum.splits)
  show "add_sentence c n st = Inl (e, st') \<Longrightarrow> duplicate_free st'"
    using d1 d2 by (auto simp: add_sentence_def Let_def split: sum.splits)
qed

lemma duplicate_free_play:
  assumes "duplicate_free st"
  shows "play r st = Inr (m, st') \<Longrightarrow> duplicate_free st'"
    and "play r st = Inl (e, st') \<Longrightarrow> duplicate_free st'"
  using assms
  by (auto simp: play_def Let_def pyset_remove_def duplicate_free_def distinct_removeAll
      split: option.splits if_splits)

lemma reachable_duplicate_free: "reachable st \<Longrightarrow> duplicate_free st"
proof (induction rule: reachable.induct)
  case (init h w)
  show ?case by (simp add: duplicate_free_def MinesweeperAI_def)
next
  case (mark_mine st c)
  then show ?case by (simp add: duplicate_free_mark_mine)
next
  case (mark_safe st c)
  then show ?case by (simp add: duplicate_free_mark_safe)
next
  case (add_knowledge_returns st c n st')
  then obtain st3 where "add_sentence c n st = Inr st3" "st' = infer_from 0 st3"
    unfolding add_knowledge_Inr by blast
  then show ?case
    using add_knowledge_returns.IH duplicate_free_add_sentence(1) duplicate_free_infer_from
    by blast
next
  case (add_knowledge_raises st c n e st')
  then show ?case
    unfolding add_knowledge_Inl using duplicate_free_add_sentence(2) by blast
next
  case (play_returns st r m st')
  then show ?case using duplicate_free_play(1) by blast
next
  case (play_raises st r e st')
  then show ?case using duplicate_free_play(2) by blast
qed

text \<open>
  \<^verbatim>\<open>play\<close> never raises: the move it removes from \<^verbatim>\<open>safes\<close> was taken from \<^verbatim>\<open>safes\<close>.
\<close>

lemma play_never_raises: "\<exists>m st'. play r st = Inr (m, st')"
proof (cases "fst (make_safe_move st)")
  case None
  then show ?thesis by (simp add: play_def split: option.splits)
next
  case (Some c)
  then have "c \<in> set (safes st)"
    using make_safe_move_Some by blast
  then show ?thesis
    using Some by (simp add: play_def Let_def pyset_remove_def)
qed

end
